theory Spec2Isabelle
  imports Complex_Main
begin

section \<open>The chat page of shadow-container-react: stream decoding and message updates\<close>

text \<open>
  The development embeds \<^verbatim>\<open>src/app/page.tsx\<close>: the component state, \<^verbatim>\<open>handleNewChat\<close>
  and \<^verbatim>\<open>handleSubmit\<close> with its read loop over the response body, the line loop over the
  carry-over buffer, and the \<^verbatim>\<open>setMessages\<close> updater with its \<^verbatim>\<open>switch\<close> on the event type.

  What belongs to the platform is a parameter: \<^verbatim>\<open>JSON.parse\<close> followed by the reading of the
  event's fields (\<open>parse\<close>, where \<open>None\<close> is the thrown SyntaxError), the clocks
  (\<^verbatim>\<open>Date.now()\<close>, \<^verbatim>\<open>new Date()\<close>, \<^verbatim>\<open>performance.now()\<close>) and the outcome of \<^verbatim>\<open>fetch\<close>.
  Chunks are the texts that \<^verbatim>\<open>decoder.decode(value, {stream: true})\<close> returns. A state setter
  of React is modelled as the state change it queues, applied in call order.
\<close>

subsection \<open>Strings\<close>

text \<open>
  A \<open>char\<close> stands for a code unit below 256. \<^verbatim>\<open>String.prototype.trim\<close> removes white space
  and line terminators; below 256 these are TAB, LF, VT, FF, CR, SPACE and NBSP.
\<close>

definition isWhiteSpace :: "char \<Rightarrow> bool" where
  "isWhiteSpace c \<longleftrightarrow>
     c = CHR 0x09 \<or> c = CHR 0x0A \<or> c = CHR 0x0B \<or> c = CHR 0x0C \<or> c = CHR 0x0D \<or>
     c = CHR 0x20 \<or> c = CHR 0xA0"

definition trim :: "string \<Rightarrow> string" where
  "trim s = rev (dropWhile isWhiteSpace (rev (dropWhile isWhiteSpace s)))"

definition startsWith :: "string \<Rightarrow> string \<Rightarrow> bool" where
  "startsWith s p \<longleftrightarrow> take (length p) s = p"

text \<open>\<^verbatim>\<open>s.indexOf(c)\<close>: the first position of \<open>c\<close>; \<open>None\<close> is the source's \<open>-1\<close>.\<close>

fun indexOf :: "string \<Rightarrow> char \<Rightarrow> nat option" where
  "indexOf [] c = None"
| "indexOf (x # xs) c = (if x = c then Some 0 else map_option Suc (indexOf xs c))"

text \<open>\<^verbatim>\<open>s.substring(a, b)\<close> and \<^verbatim>\<open>s.substring(a)\<close> for \<open>a \<le> b\<close>.\<close>

definition substring :: "string \<Rightarrow> nat \<Rightarrow> nat \<Rightarrow> string" where
  "substring s a b = take (b - a) (drop a s)"

definition substringFrom :: "string \<Rightarrow> nat \<Rightarrow> string" where
  "substringFrom s a = drop a s"

text \<open>\<^verbatim>\<open>n.toString()\<close> of a non-negative integer: its decimal digits.\<close>

definition digit :: "nat \<Rightarrow> char" where
  "digit d = char_of (48 + d)"

fun toString :: "nat \<Rightarrow> string" where
  "toString n = (if n < 10 then [digit n] else toString (n div 10) @ [digit (n mod 10)])"

declare toString.simps [simp del]

subsection \<open>Data model\<close>

text \<open>Values that \<^verbatim>\<open>JSON.parse\<close> produces; \<open>None\<close> of a \<open>json option\<close> is \<^verbatim>\<open>undefined\<close>.\<close>

datatype json =
    JNull
  | JBool bool
  | JNum real
  | JStr string
  | JArr "json list"
  | JObj "(string \<times> json) list"

text \<open>\<^verbatim>\<open>!v\<close> is true on the falsy values: undefined, null, false, 0 and the empty string.\<close>

fun falsy :: "json option \<Rightarrow> bool" where
  "falsy None = True"
| "falsy (Some JNull) = True"
| "falsy (Some (JBool b)) = (\<not> b)"
| "falsy (Some (JNum x)) = (x = 0)"
| "falsy (Some (JStr s)) = (s = [])"
| "falsy (Some (JArr xs)) = False"
| "falsy (Some (JObj kvs)) = False"

record FunctionCall =
  fc_id :: string
  fc_name :: string
  fc_arguments :: json
  fc_result :: "json option"
  fc_timestamp :: nat

datatype MessageType = user | assistant

record Message =
  msg_id :: string
  content :: string
  msg_type :: MessageType
  timestamp :: nat
  functionCalls :: "FunctionCall list option"
  isStreaming :: "bool option"
  responseTime :: "int option"

text \<open>
  The parsed \<open>data\<close> object as the \<^verbatim>\<open>switch\<close> reads it: the case chosen by \<^verbatim>\<open>data.type\<close> and the
  fields that case uses, at the types the interfaces declare. \<open>UnknownType\<close> is a type tag
  that no case matches.
\<close>

datatype event =
    function_call string json
  | function_result string "json option"
  | thread_info "string option"
  | content_event string
  | intermediate
  | stream_complete
  | error_event string
  | UnknownType

text \<open>The component's state (the \<^verbatim>\<open>useState\<close> cells).\<close>

record State =
  messages :: "Message list"
  inputValue :: string
  demandPhase :: string
  accountName :: string
  accountId :: string
  clientName :: string
  clientId :: string
  pursuitId :: string
  additionalInstructions :: string
  isLoading :: bool
  threadId :: string
  isConfigExpanded :: bool

text \<open>One reading of the clocks, taken where an event is applied.\<close>

record Clock =
  dateNow :: nat
  newDate :: nat
  performanceNow :: real

subsection \<open>handleNewChat\<close>

definition welcomeMessage :: "nat \<Rightarrow> Message" where
  "welcomeMessage date =
     \<lparr> msg_id = ''1'',
       content = ''Hello and welcome to Shadow! How can I help you today?'',
       msg_type = assistant,
       timestamp = date,
       functionCalls = None,
       isStreaming = None,
       responseTime = None \<rparr>"


text \<open>The initial values of the \<^verbatim>\<open>useState\<close> cells.\<close>

definition initialState :: "nat \<Rightarrow> State" where
  "initialState date =
     \<lparr> messages = [welcomeMessage date],
       inputValue = [],
       demandPhase = ''Pre-Demand'',
       accountName = [],
       accountId = [],
       clientName = [],
       clientId = [],
       pursuitId = [],
       additionalInstructions = [],
       isLoading = False,
       threadId = [],
       isConfigExpanded = False \<rparr>"

subsection \<open>The updater of an event\<close>

text \<open>
  \<^verbatim>\<open>Math.round\<close>: the nearest integer, a half rounded up. The difference
  \<^verbatim>\<open>endTime - startTime\<close> is taken exactly here; the source subtracts in binary64, which can
  differ where the exact difference is next to a half.
\<close>

definition Math_round :: "real \<Rightarrow> int" where
  "Math_round x = \<lfloor>x + 1 / 2\<rfloor>"

definition newFunctionCall :: "Clock \<Rightarrow> string \<Rightarrow> json \<Rightarrow> FunctionCall" where
  "newFunctionCall clk function_name arguments =
     \<lparr> fc_id = function_name @ ''-'' @ toString (dateNow clk),
       fc_name = function_name,
       fc_arguments = arguments,
       fc_result = None,
       fc_timestamp = newDate clk \<rparr>"

text \<open>\<^verbatim>\<open>updatedMsg.functionCalls || []\<close>: an array is truthy, so only undefined is replaced.\<close>

definition functionCallsOrEmpty :: "Message \<Rightarrow> FunctionCall list" where
  "functionCallsOrEmpty msg = (case functionCalls msg of None \<Rightarrow> [] | Some fcs \<Rightarrow> fcs)"

text \<open>The body of the \<^verbatim>\<open>switch (data.type)\<close> on the copy \<open>updatedMsg\<close> of the message.\<close>

fun updatedMsg :: "real \<Rightarrow> Clock \<Rightarrow> event \<Rightarrow> Message \<Rightarrow> Message" where
  "updatedMsg startTime clk (function_call function_name arguments) msg =
     msg\<lparr> functionCalls :=
            Some (functionCallsOrEmpty msg @ [newFunctionCall clk function_name arguments]) \<rparr>"
| "updatedMsg startTime clk (function_result function_name result) msg =
     msg\<lparr> functionCalls :=
            Some (map (\<lambda>fc. if fc_name fc = function_name \<and> falsy (fc_result fc)
                            then fc\<lparr> fc_result := result \<rparr> else fc)
                      (functionCallsOrEmpty msg)) \<rparr>"
| "updatedMsg startTime clk (thread_info thread_id) msg = msg"
| "updatedMsg startTime clk (content_event text) msg = msg\<lparr> content := content msg @ text \<rparr>"
| "updatedMsg startTime clk intermediate msg = msg"
| "updatedMsg startTime clk stream_complete msg =
     msg\<lparr> isStreaming := Some False,
          responseTime := Some (Math_round (performanceNow clk - startTime)) \<rparr>"
| "updatedMsg startTime clk (error_event err) msg =
     msg\<lparr> content := ''Error: '' @ err, isStreaming := Some False \<rparr>"
| "updatedMsg startTime clk UnknownType msg = msg"

text \<open>
  The \<^verbatim>\<open>thread_info\<close> case calls \<^verbatim>\<open>setThreadId\<close> when \<^verbatim>\<open>data.thread_id\<close> is truthy; the call sits
  inside the updater, so the thread id is threaded through it.
\<close>

fun setThreadIdOf :: "event \<Rightarrow> string \<Rightarrow> string" where
  "setThreadIdOf (thread_info (Some thread_id)) tid = (if thread_id \<noteq> [] then thread_id else tid)"
| "setThreadIdOf data tid = tid"

text \<open>The callback of \<^verbatim>\<open>prev.map\<close>: messages with another id are returned as they are.\<close>

definition updateMessage ::
  "string \<Rightarrow> real \<Rightarrow> Clock \<Rightarrow> event \<Rightarrow> Message \<Rightarrow> string \<Rightarrow> Message \<times> string" where
  "updateMessage assistantMessageId startTime clk data msg tid =
     (if msg_id msg \<noteq> assistantMessageId then (msg, tid)
      else (updatedMsg startTime clk data msg, setThreadIdOf data tid))"

text \<open>\<^verbatim>\<open>prev.map(callback)\<close>, from the first message to the last, with the callback's effect.\<close>

fun mapMessages ::
  "(Message \<Rightarrow> string \<Rightarrow> Message \<times> string) \<Rightarrow> Message list \<Rightarrow> string \<Rightarrow> Message list \<times> string" where
  "mapMessages f [] tid = ([], tid)"
| "mapMessages f (msg # rest) tid =
     (case f msg tid of (msg', tid') \<Rightarrow>
        (case mapMessages f rest tid' of (rest', tid'') \<Rightarrow> (msg' # rest', tid'')))"

definition applyEvent :: "string \<Rightarrow> real \<Rightarrow> Clock \<Rightarrow> event \<Rightarrow> State \<Rightarrow> State" where
  "applyEvent assistantMessageId startTime clk data st =
     (case mapMessages (updateMessage assistantMessageId startTime clk data)
             (messages st) (threadId st) of
        (msgs, tid) \<Rightarrow> st\<lparr> messages := msgs, threadId := tid \<rparr>)"

text \<open>
  \<^verbatim>\<open>try { const data = JSON.parse(dataStr); setMessages(...) } catch (parseError) { console.error(...) }\<close>:
  a payload that does not parse is logged and nothing else happens. A payload that parses
  to something that is not an object with fields of the declared types (\<^verbatim>\<open>null\<close>, on which
  \<^verbatim>\<open>data.type\<close> throws inside the updater) is not an \<open>event\<close> and has no outcome here.
\<close>

definition processData ::
  "(string \<Rightarrow> event option) \<Rightarrow> string \<Rightarrow> real \<Rightarrow> Clock \<Rightarrow> string \<Rightarrow> State \<Rightarrow> State" where
  "processData parse assistantMessageId startTime clk dataStr st =
     (case parse dataStr of
        None \<Rightarrow> st
      | Some data \<Rightarrow> applyEvent assistantMessageId startTime clk data st)"

subsection \<open>The line loop and the read loop\<close>

text \<open>
  The inner \<^verbatim>\<open>while ((newlineIndex = buffer.indexOf('\n')) !== -1)\<close>. The handler \<open>h\<close> is what
  the loop does with a payload \<open>dataStr\<close>; the result is the buffer left over and the state.
\<close>

function processLines :: "(string \<Rightarrow> 's \<Rightarrow> 's) \<Rightarrow> string \<Rightarrow> 's \<Rightarrow> string \<times> 's" where
  "processLines h buffer st =
     (case indexOf buffer CHR 0x0A of
        None \<Rightarrow> (buffer, st)
      | Some newlineIndex \<Rightarrow>
          (let line = trim (substring buffer 0 newlineIndex);
               buffer' = substringFrom buffer (newlineIndex + 1)
           in if line = [] then processLines h buffer' st
              else if startsWith line ''event:'' then processLines h buffer' st
              else if startsWith line ''data:'' then
                (let dataStr = trim (substringFrom line 5)
                 in if dataStr = [] then processLines h buffer' st
                    else processLines h buffer' (h dataStr st))
              else processLines h buffer' st))"
  by pat_completeness auto
termination
proof -
  have bound: "i < length s" if "indexOf s c = Some i" for s :: string and c i
    using that by (induction s arbitrary: i) (auto split: if_splits)
  show ?thesis
    by (relation "measure (\<lambda>(h, buffer, st). length buffer)")
       (auto simp: substringFrom_def dest: bound)
qed

declare processLines.simps [simp del]

text \<open>
  The outer \<^verbatim>\<open>while (true)\<close>: each chunk read is appended to the buffer and the complete lines
  are processed; on \<open>done\<close> the loop is left and the buffer is not looked at again.
\<close>

definition readChunk :: "(string \<Rightarrow> 's \<Rightarrow> 's) \<Rightarrow> string \<times> 's \<Rightarrow> string \<Rightarrow> string \<times> 's" where
  "readChunk h bs chunk = (case bs of (buffer, st) \<Rightarrow> processLines h (buffer @ chunk) st)"

definition readLoop :: "(string \<Rightarrow> 's \<Rightarrow> 's) \<Rightarrow> string list \<Rightarrow> 's \<Rightarrow> 's" where
  "readLoop h chunks st = snd (foldl (readChunk h) ([], st) chunks)"

subsection \<open>handleSubmit\<close>

text \<open>
  The clock readings of the synchronous first part of \<^verbatim>\<open>handleSubmit\<close>: \<^verbatim>\<open>Date.now()\<close> and
  \<^verbatim>\<open>new Date()\<close> for the user message and for the assistant message, and the
  \<^verbatim>\<open>performance.now()\<close> kept as \<open>startTime\<close>.
\<close>

record SubmitClock =
  userDateNow :: nat
  userNewDate :: nat
  assistantDateNow :: nat
  assistantNewDate :: nat
  startTime :: real

definition userMessage :: "SubmitClock \<Rightarrow> string \<Rightarrow> Message" where
  "userMessage sc input =
     \<lparr> msg_id = toString (userDateNow sc),
       content = input,
       msg_type = user,
       timestamp = userNewDate sc,
       functionCalls = None,
       isStreaming = None,
       responseTime = None \<rparr>"

definition assistantMessageId :: "SubmitClock \<Rightarrow> string" where
  "assistantMessageId sc = toString (assistantDateNow sc + 1)"

definition assistantMessage :: "SubmitClock \<Rightarrow> Message" where
  "assistantMessage sc =
     \<lparr> msg_id = assistantMessageId sc,
       content = [],
       msg_type = assistant,
       timestamp = assistantNewDate sc,
       functionCalls = Some [],
       isStreaming = Some True,
       responseTime = None \<rparr>"

text \<open>
  The part of \<^verbatim>\<open>handleSubmit\<close> between the guard on the input and the \<^verbatim>\<open>try\<close> block: the user
  message and the empty assistant message are appended.
\<close>

definition beginSubmit :: "SubmitClock \<Rightarrow> State \<Rightarrow> State" where
  "beginSubmit sc st =
     st\<lparr> isConfigExpanded := False,
         messages := messages st @ [userMessage sc (inputValue st), assistantMessage sc],
         inputValue := [],
         isLoading := True \<rparr>"

text \<open>What a \<^verbatim>\<open>catch (error)\<close> receives, and \<^verbatim>\<open>error instanceof Error ? error.message : 'Unknown error'\<close>.\<close>

datatype thrown = ErrorObject string | OtherValue

fun errorMessage :: "thrown \<Rightarrow> string" where
  "errorMessage (ErrorObject message) = message"
| "errorMessage OtherValue = ''Unknown error''"

text \<open>The \<^verbatim>\<open>setMessages\<close> of the catch block.\<close>

definition catchError :: "string \<Rightarrow> thrown \<Rightarrow> State \<Rightarrow> State" where
  "catchError aid err st =
     st\<lparr> messages :=
           map (\<lambda>msg. if msg_id msg = aid
                       then msg\<lparr> content := ''Sorry, I encountered an error: '' @ errorMessage err,
                                 isStreaming := Some False \<rparr>
                       else msg)
               (messages st) \<rparr>"

text \<open>
  The handler of a payload inside \<^verbatim>\<open>handleSubmit\<close>. The clock is read where the event is applied:
  \<open>clock n\<close> is the reading at the \<open>n\<close>-th payload of the stream, and the counter goes with the
  state.
\<close>

definition onData ::
  "(string \<Rightarrow> event option) \<Rightarrow> string \<Rightarrow> real \<Rightarrow> (nat \<Rightarrow> Clock) \<Rightarrow> string \<Rightarrow> nat \<times> State \<Rightarrow> nat \<times> State" where
  "onData parse aid start clock dataStr ns =
     (case ns of (n, st) \<Rightarrow> (Suc n, processData parse aid start (clock n) dataStr st))"

definition readStream ::
  "(string \<Rightarrow> event option) \<Rightarrow> string \<Rightarrow> real \<Rightarrow> (nat \<Rightarrow> Clock) \<Rightarrow> string list \<Rightarrow> State \<Rightarrow> State" where
  "readStream parse aid start clock chunks st =
     snd (readLoop (onData parse aid start clock) chunks (0, st))"

text \<open>
  The outcome of \<^verbatim>\<open>fetch\<close>: it rejects, or there is a response with a status and a body; the
  body has no reader, or it is a stream of chunks that ends with \<open>done\<close> (\<open>None\<close>) or with a
  \<^verbatim>\<open>reader.read()\<close> that rejects.
\<close>

datatype body = NoReader | Chunks "string list" "thrown option"

datatype fetched = Rejected thrown | Response nat body

definition response_ok :: "nat \<Rightarrow> bool" where
  "response_ok status \<longleftrightarrow> 200 \<le> status \<and> status \<le> 299"

text \<open>The \<^verbatim>\<open>try\<close> block with its \<^verbatim>\<open>catch\<close>.\<close>

fun tryBlock ::
  "(string \<Rightarrow> event option) \<Rightarrow> string \<Rightarrow> real \<Rightarrow> (nat \<Rightarrow> Clock) \<Rightarrow> fetched \<Rightarrow> State \<Rightarrow> State" where
  "tryBlock parse aid start clock (Rejected err) st = catchError aid err st"
| "tryBlock parse aid start clock (Response status b) st =
     (if \<not> response_ok status
      then catchError aid (ErrorObject (''HTTP error! status: '' @ toString status)) st
      else case b of
             NoReader \<Rightarrow> catchError aid (ErrorObject ''Failed to get response reader'') st
           | Chunks chunks None \<Rightarrow> readStream parse aid start clock chunks st
           | Chunks chunks (Some err) \<Rightarrow>
               catchError aid err (readStream parse aid start clock chunks st))"

text \<open>The \<^verbatim>\<open>finally\<close> block: it runs when the handler leaves the \<^verbatim>\<open>try\<close> block or its \<^verbatim>\<open>catch\<close>.\<close>

definition finallyBlock :: "State \<Rightarrow> State" where
  "finallyBlock st = st\<lparr> isLoading := False \<rparr>"

text \<open>
  \<^verbatim>\<open>handleSubmit\<close> as a whole, when nothing else happens in between: the guard
  \<^verbatim>\<open>if (!inputValue.trim()) return\<close>, the two messages, the \<^verbatim>\<open>try\<close> block and the \<^verbatim>\<open>finally\<close>.
\<close>

definition handleSubmit ::
  "(string \<Rightarrow> event option) \<Rightarrow> SubmitClock \<Rightarrow> (nat \<Rightarrow> Clock) \<Rightarrow> fetched \<Rightarrow> State \<Rightarrow> State" where
  "handleSubmit parse sc clock response st =
     (if trim (inputValue st) = [] then st
      else finallyBlock
             (tryBlock parse (assistantMessageId sc) (startTime sc) clock response (beginSubmit sc st)))"

text \<open>Events applied one after the other to a message, each with the clock reading of its moment.\<close>

definition applyEvents :: "real \<Rightarrow> (Clock \<times> event) list \<Rightarrow> Message \<Rightarrow> Message" where
  "applyEvents start evs msg = foldl (\<lambda>m (clk, data). updatedMsg start clk data m) msg evs"

text \<open>
  The payload strings that the line loop hands on: the loop run with a handler that only
  records each \<open>dataStr\<close>.
\<close>

definition payloads :: "string list \<Rightarrow> string list" where
  "payloads chunks = readLoop (\<lambda>dataStr out. out @ [dataStr]) chunks []"

subsection \<open>Example inputs\<close>

text \<open>
  A stand-in for \<^verbatim>\<open>JSON.parse\<close> on the payloads of the examples: four payloads parse, every
  other string is a syntax error.
\<close>

definition parseExample :: "string \<Rightarrow> event option" where
  \<open>parseExample dataStr =
     (if dataStr = ''{"type":"content","content":"a"}'' then Some (content_event ''a'')
      else if dataStr = ''{"type":"content","content":"b"}'' then Some (content_event ''b'')
      else if dataStr = ''{"type":"thread_info","thread_id":"T1"}'' then Some (thread_info (Some ''T1''))
      else if dataStr = ''{"type":"stream_complete"}'' then Some stream_complete
      else None)\<close>

text \<open>
  Clock readings for the examples: \<^verbatim>\<open>Date.now()\<close> and \<^verbatim>\<open>new Date()\<close> at the millisecond \<open>t\<close>,
  \<^verbatim>\<open>performance.now()\<close> at \<open>p\<close>; a submit at the millisecond \<open>t\<close> with \<open>startTime\<close> 0.
\<close>

abbreviation clockAt :: "nat \<Rightarrow> real \<Rightarrow> Clock" where
  "clockAt t p \<equiv> \<lparr> dateNow = t, newDate = t, performanceNow = p \<rparr>"

abbreviation submitAt :: "nat \<Rightarrow> SubmitClock" where
  "submitAt t \<equiv> \<lparr> userDateNow = t, userNewDate = t, assistantDateNow = t,
                   assistantNewDate = t, startTime = 0 \<rparr>"





section \<open>Sequences of events\<close>

lemma applyEvents_Nil: "applyEvents start [] msg = msg"
  by (simp add: applyEvents_def)

lemma applyEvents_Cons:
  "applyEvents start ((clk, data) # evs) msg = applyEvents start evs (updatedMsg start clk data msg)"
  by (simp add: applyEvents_def)

section \<open>Function results\<close>

text \<open>
  C1 (as stated, refuted): a \<^verbatim>\<open>function_result\<close> event would give its result to the earliest
  unresolved record of that name only. After two \<^verbatim>\<open>function_call\<close> events for \<open>f\<close> and one
  \<^verbatim>\<open>function_result\<close> for \<open>f\<close> with result 1, both records hold the result 1: the second
  record is not left unresolved.
\<close>

theorem function_result_first_match_counterexample:
  "map fc_result (functionCallsOrEmpty (applyEvents 0
      [(clockAt 1000 0, function_call ''f'' (JObj [])),
       (clockAt 1001 1, function_call ''f'' (JObj [])),
       (clockAt 1002 2, function_result ''f'' (Some (JNum 1)))]
      (assistantMessage (submitAt 0))))
    = [Some (JNum 1), Some (JNum 1)]"
  by code_simp

text \<open>
  C1 (amended): a \<^verbatim>\<open>function_result\<close> event keeps the number and order of the function-call
  records and gives its result to every record whose name is the event's function name and
  whose result is still absent, not only to the earliest one; a record with another name
  and a record that holds a truthy result stay as they are. After two \<^verbatim>\<open>function_call\<close>
  events for the same name and a \<^verbatim>\<open>function_result\<close> for it, both new records hold the
  result.
\<close>

theorem function_result_sets_every_match:
  "length (functionCallsOrEmpty (updatedMsg start clk (function_result fn r) msg))
     = length (functionCallsOrEmpty msg) \<and>
   (\<forall>i < length (functionCallsOrEmpty msg).
      (fc_name (functionCallsOrEmpty msg ! i) = fn \<and> fc_result (functionCallsOrEmpty msg ! i) = None
         \<longrightarrow> functionCallsOrEmpty (updatedMsg start clk (function_result fn r) msg) ! i
               = (functionCallsOrEmpty msg ! i)\<lparr> fc_result := r \<rparr>) \<and>
      (fc_name (functionCallsOrEmpty msg ! i) \<noteq> fn \<or> \<not> falsy (fc_result (functionCallsOrEmpty msg ! i))
         \<longrightarrow> functionCallsOrEmpty (updatedMsg start clk (function_result fn r) msg) ! i
               = functionCallsOrEmpty msg ! i)) \<and>
   map fc_result (drop (length (functionCallsOrEmpty msg)) (functionCallsOrEmpty (applyEvents start
      [(c1, function_call fn a1), (c2, function_call fn a2), (c3, function_result fn r)] msg)))
     = [r, r]"
proof -
  let ?fcs = "functionCallsOrEmpty msg"
  let ?upd = "\<lambda>fc. if fc_name fc = fn \<and> falsy (fc_result fc) then fc\<lparr> fc_result := r \<rparr> else fc"
  have after: "functionCallsOrEmpty (updatedMsg start clk (function_result fn r) m) =
      map ?upd (functionCallsOrEmpty m)" for m clk
    by (simp add: functionCallsOrEmpty_def)
  have call: "functionCallsOrEmpty (updatedMsg start clk (function_call fn a) m) =
      functionCallsOrEmpty m @ [newFunctionCall clk fn a]" for m clk a
    by (simp add: functionCallsOrEmpty_def)
  have "functionCallsOrEmpty (applyEvents start
      [(c1, function_call fn a1), (c2, function_call fn a2), (c3, function_result fn r)] msg)
     = map ?upd ?fcs @ map ?upd [newFunctionCall c1 fn a1, newFunctionCall c2 fn a2]"
    by (simp only: applyEvents_Cons applyEvents_Nil after call map_append append_assoc append.simps)
  then have example: "map fc_result (drop (length ?fcs) (functionCallsOrEmpty (applyEvents start
      [(c1, function_call fn a1), (c2, function_call fn a2), (c3, function_result fn r)] msg)))
     = [r, r]"
    by (simp add: newFunctionCall_def)
  have len: "length (functionCallsOrEmpty (updatedMsg start clk (function_result fn r) msg)) = length ?fcs"
    by (simp only: after length_map)
  have pointwise: "\<forall>i < length ?fcs.
      functionCallsOrEmpty (updatedMsg start clk (function_result fn r) msg) ! i = ?upd (?fcs ! i)"
    by (simp only: after nth_map) simp
  have absent: "\<forall>i < length ?fcs. fc_name (?fcs ! i) = fn \<and> fc_result (?fcs ! i) = None
      \<longrightarrow> functionCallsOrEmpty (updatedMsg start clk (function_result fn r) msg) ! i
            = (?fcs ! i)\<lparr> fc_result := r \<rparr>"
    using pointwise by simp
  have kept: "\<forall>i < length ?fcs. fc_name (?fcs ! i) \<noteq> fn \<or> \<not> falsy (fc_result (?fcs ! i))
      \<longrightarrow> functionCallsOrEmpty (updatedMsg start clk (function_result fn r) msg) ! i = ?fcs ! i"
    using pointwise by auto
  from len absent kept example show ?thesis
    by blast
qed

text \<open>
  C1, witness: after the two calls of the specification's example, the second record (index
  1) has the name \<open>f\<close> and no result, and the \<^verbatim>\<open>function_result\<close> event gives it the result 1.
\<close>

theorem function_result_sets_every_match_witness:
  "fc_result (functionCallsOrEmpty
      (updatedMsg 0 (clockAt 1002 2) (function_result ''f'' (Some (JNum 1)))
         (applyEvents 0
            [(clockAt 1000 0, function_call ''f'' (JObj [])),
             (clockAt 1001 1, function_call ''f'' (JObj []))]
            (assistantMessage (submitAt 0)))) ! 1) = Some (JNum 1)"
proof -
  let ?calls = "applyEvents 0
      [(clockAt 1000 0, function_call ''f'' (JObj [])),
       (clockAt 1001 1, function_call ''f'' (JObj []))]
      (assistantMessage (submitAt 0))"
  have second: "1 < length (functionCallsOrEmpty ?calls)"
    by code_simp
  have unresolved: "fc_name (functionCallsOrEmpty ?calls ! 1) = ''f'' \<and>
      fc_result (functionCallsOrEmpty ?calls ! 1) = None"
    by code_simp
  from function_result_sets_every_match [where msg = ?calls and fn = "''f''"
      and r = "Some (JNum 1)" and start = 0 and clk = "clockAt 1002 2"] second unresolved
  have "functionCallsOrEmpty (updatedMsg 0 (clockAt 1002 2) (function_result ''f'' (Some (JNum 1)))
      ?calls) ! 1 = (functionCallsOrEmpty ?calls ! 1)\<lparr> fc_result := Some (JNum 1) \<rparr>"
    by blast
  then show ?thesis
    by simp
qed

text \<open>
  C5 (the code departs from the claim): a result once set would never be replaced. The
  guard of the \<^verbatim>\<open>function_result\<close> case is \<^verbatim>\<open>!fc.result\<close>, which is also true of a result
  that is present and falsy. Here the result 0 is set by a first \<^verbatim>\<open>function_result\<close> event and
  replaced by 5 at the next one. (The rendering tests \<^verbatim>\<open>fc.result !== undefined\<close>.)
\<close>

theorem falsy_result_replaced:
  "map fc_result (functionCallsOrEmpty (applyEvents 0
      [(clockAt 1000 0, function_call ''f'' (JObj [])),
       (clockAt 1001 1, function_result ''f'' (Some (JNum 0)))]
      (assistantMessage (submitAt 0)))) = [Some (JNum 0)] \<and>
   map fc_result (functionCallsOrEmpty (applyEvents 0
      [(clockAt 1000 0, function_call ''f'' (JObj [])),
       (clockAt 1001 1, function_result ''f'' (Some (JNum 0))),
       (clockAt 1002 2, function_result ''f'' (Some (JNum 5)))]
      (assistantMessage (submitAt 0)))) = [Some (JNum 5)]"
  by code_simp

section \<open>Ids of function-call records\<close>

text \<open>
  C4 (the code departs from the claim): the ids of the function-call records of a message
  would be pairwise distinct. The id is the function name, a hyphen and \<^verbatim>\<open>Date.now()\<close>; two
  \<^verbatim>\<open>function_call\<close> events for the same name applied within the same millisecond get the
  same id. (The rendering uses the id as the React key of the record.)
\<close>

theorem function_call_ids_collide:
  "map fc_id (functionCallsOrEmpty (applyEvents 0
      [(clockAt 1000 0, function_call ''f'' (JObj [(''q'', JStr ''a'')])),
       (clockAt 1000 0, function_call ''f'' (JObj [(''q'', JStr ''b'')]))]
      (assistantMessage (submitAt 0))))
    = [''f-1000'', ''f-1000'']"
  by code_simp

section \<open>Content\<close>

text \<open>
  C7: applying a sequence of \<^verbatim>\<open>content\<close> events appends the fragments to the content in
  arrival order: the final content is the content before, followed by the concatenation
  of the fragments.
\<close>

theorem content_events_concatenate:
  "content (applyEvents start (map (\<lambda>(clk, fragment). (clk, content_event fragment)) cfs) msg)
     = content msg @ concat (map snd cfs)"
proof (induction cfs arbitrary: msg)
  case Nil
  show ?case by (simp add: applyEvents_Nil)
next
  case (Cons cf cfs)
  obtain clk fragment where cf: "cf = (clk, fragment)" by (cases cf)
  show ?case by (simp add: cf applyEvents_Cons Cons.IH)
qed

text \<open>C7, witness: the fragments a, b and c give the content abc.\<close>

theorem content_events_concatenate_witness:
  "content (applyEvents 0
      [(clockAt 1 1, content_event ''a''), (clockAt 2 2, content_event ''b''),
       (clockAt 3 3, content_event ''c'')]
      (assistantMessage (submitAt 0))) = ''abc''"
  using content_events_concatenate [of 0
      "[(clockAt 1 1, ''a''), (clockAt 2 2, ''b''), (clockAt 3 3, ''c'')]"
      "assistantMessage (submitAt 0)"]
  by (simp add: assistantMessage_def)

section \<open>Events after a terminal event\<close>

text \<open>
  C2 (as stated, refuted): every event applied after \<^verbatim>\<open>stream_complete\<close> or \<^verbatim>\<open>error\<close> would
  leave the record unchanged. The \<^verbatim>\<open>switch\<close> does not look at \<open>isStreaming\<close>: a \<^verbatim>\<open>content\<close>
  event after \<^verbatim>\<open>stream_complete\<close> still appends its fragment, and a second
  \<^verbatim>\<open>stream_complete\<close> sets the response time again.
\<close>

theorem terminal_idempotence_counterexample:
  "content (applyEvents 0 [(clockAt 50 50, stream_complete), (clockAt 60 60, content_event ''late'')]
      (assistantMessage (submitAt 0))) = ''late'' \<and>
   content (applyEvents 0 [(clockAt 50 50, stream_complete)] (assistantMessage (submitAt 0))) = [] \<and>
   responseTime (applyEvents 0 [(clockAt 50 50, stream_complete), (clockAt 60 60, stream_complete)]
      (assistantMessage (submitAt 0))) = Some 60 \<and>
   responseTime (applyEvents 0 [(clockAt 50 50, stream_complete)] (assistantMessage (submitAt 0))) = Some 50"
  by code_simp

lemma updatedMsg_isStreaming:
  "isStreaming msg = Some False \<Longrightarrow> isStreaming (updatedMsg start clk data msg) = Some False"
  by (cases data) simp_all

lemma applyEvents_isStreaming:
  "isStreaming msg = Some False \<Longrightarrow> isStreaming (applyEvents start evs msg) = Some False"
proof (induction evs arbitrary: msg)
  case Nil
  then show ?case by (simp add: applyEvents_Nil)
next
  case (Cons ev evs)
  obtain clk data where ev: "ev = (clk, data)" by (cases ev)
  show ?case
    unfolding ev applyEvents_Cons
    by (rule Cons.IH) (rule updatedMsg_isStreaming [OF Cons.prems])
qed

lemma applyEvents_content:
  "\<forall>(clk, data) \<in> set evs. (\<forall>text. data \<noteq> content_event text) \<and> (\<forall>err. data \<noteq> error_event err)
   \<Longrightarrow> content (applyEvents start evs msg) = content msg"
proof (induction evs arbitrary: msg)
  case Nil
  then show ?case by (simp add: applyEvents_Nil)
next
  case (Cons ev evs)
  obtain clk data where ev: "ev = (clk, data)" by (cases ev)
  from Cons.prems have here: "content (updatedMsg start clk data msg) = content msg"
    unfolding ev by (cases data) simp_all
  from Cons.prems have "content (applyEvents start evs (updatedMsg start clk data msg))
      = content (updatedMsg start clk data msg)"
    by (intro Cons.IH) simp
  with here show ?case by (simp add: ev applyEvents_Cons)
qed

lemma applyEvents_functionCalls:
  "\<forall>(clk, data) \<in> set evs. (\<forall>fn a. data \<noteq> function_call fn a) \<and> (\<forall>fn r. data \<noteq> function_result fn r)
   \<Longrightarrow> functionCalls (applyEvents start evs msg) = functionCalls msg"
proof (induction evs arbitrary: msg)
  case Nil
  then show ?case by (simp add: applyEvents_Nil)
next
  case (Cons ev evs)
  obtain clk data where ev: "ev = (clk, data)" by (cases ev)
  from Cons.prems have here: "functionCalls (updatedMsg start clk data msg) = functionCalls msg"
    unfolding ev by (cases data) simp_all
  from Cons.prems have "functionCalls (applyEvents start evs (updatedMsg start clk data msg))
      = functionCalls (updatedMsg start clk data msg)"
    by (intro Cons.IH) simp
  with here show ?case by (simp add: ev applyEvents_Cons)
qed

lemma applyEvents_responseTime:
  "\<forall>(clk, data) \<in> set evs. data \<noteq> stream_complete
   \<Longrightarrow> responseTime (applyEvents start evs msg) = responseTime msg"
proof (induction evs arbitrary: msg)
  case Nil
  then show ?case by (simp add: applyEvents_Nil)
next
  case (Cons ev evs)
  obtain clk data where ev: "ev = (clk, data)" by (cases ev)
  from Cons.prems have here: "responseTime (updatedMsg start clk data msg) = responseTime msg"
    unfolding ev by (cases data) simp_all
  from Cons.prems have "responseTime (applyEvents start evs (updatedMsg start clk data msg))
      = responseTime (updatedMsg start clk data msg)"
    by (intro Cons.IH) simp
  with here show ?case by (simp add: ev applyEvents_Cons)
qed

text \<open>
  C2 (amended): once \<^verbatim>\<open>stream_complete\<close> or \<^verbatim>\<open>error\<close> has been applied, \<open>isStreaming\<close> is false
  after every further sequence of events. The other fields are not protected by the
  terminal state; each keeps its value as long as no event of a type that writes it is
  applied: the content while no \<^verbatim>\<open>content\<close> or \<^verbatim>\<open>error\<close> event follows, the function calls
  while no \<^verbatim>\<open>function_call\<close> or \<^verbatim>\<open>function_result\<close> event follows, the response time while no
  \<^verbatim>\<open>stream_complete\<close> event follows.
\<close>

theorem after_terminal_event:
  assumes "terminal = stream_complete \<or> terminal = error_event err"
  shows "isStreaming (applyEvents start evs (updatedMsg start clk terminal msg)) = Some False \<and>
     ((\<forall>(c, data) \<in> set evs. (\<forall>text. data \<noteq> content_event text) \<and> (\<forall>e. data \<noteq> error_event e))
        \<longrightarrow> content (applyEvents start evs (updatedMsg start clk terminal msg))
              = content (updatedMsg start clk terminal msg)) \<and>
     ((\<forall>(c, data) \<in> set evs. (\<forall>fn a. data \<noteq> function_call fn a) \<and> (\<forall>fn r. data \<noteq> function_result fn r))
        \<longrightarrow> functionCalls (applyEvents start evs (updatedMsg start clk terminal msg))
              = functionCalls (updatedMsg start clk terminal msg)) \<and>
     ((\<forall>(c, data) \<in> set evs. data \<noteq> stream_complete)
        \<longrightarrow> responseTime (applyEvents start evs (updatedMsg start clk terminal msg))
              = responseTime (updatedMsg start clk terminal msg))"
proof -
  from assms have "isStreaming (updatedMsg start clk terminal msg) = Some False"
    by auto
  then have "isStreaming (applyEvents start evs (updatedMsg start clk terminal msg)) = Some False"
    by (rule applyEvents_isStreaming)
  moreover have "(\<forall>(c, data) \<in> set evs. (\<forall>text. data \<noteq> content_event text) \<and> (\<forall>e. data \<noteq> error_event e))
        \<longrightarrow> content (applyEvents start evs (updatedMsg start clk terminal msg))
              = content (updatedMsg start clk terminal msg)"
    by (rule impI) (rule applyEvents_content)
  moreover have "(\<forall>(c, data) \<in> set evs. (\<forall>fn a. data \<noteq> function_call fn a) \<and> (\<forall>fn r. data \<noteq> function_result fn r))
        \<longrightarrow> functionCalls (applyEvents start evs (updatedMsg start clk terminal msg))
              = functionCalls (updatedMsg start clk terminal msg)"
    by (rule impI) (rule applyEvents_functionCalls)
  moreover have "(\<forall>(c, data) \<in> set evs. data \<noteq> stream_complete)
        \<longrightarrow> responseTime (applyEvents start evs (updatedMsg start clk terminal msg))
              = responseTime (updatedMsg start clk terminal msg)"
    by (rule impI) (rule applyEvents_responseTime)
  ultimately show ?thesis
    by (intro conjI)
qed

text \<open>
  C2, witness: after \<^verbatim>\<open>stream_complete\<close> at 50 ms, a \<^verbatim>\<open>thread_info\<close>, an \<^verbatim>\<open>intermediate\<close> and an
  event of unknown type change none of the four fields.
\<close>

theorem after_terminal_event_witness:
  "isStreaming (applyEvents 0
      [(clockAt 60 60, thread_info (Some ''T1'')), (clockAt 61 61, intermediate), (clockAt 62 62, UnknownType)]
      (updatedMsg 0 (clockAt 50 50) stream_complete (assistantMessage (submitAt 0)))) = Some False \<and>
   content (applyEvents 0
      [(clockAt 60 60, thread_info (Some ''T1'')), (clockAt 61 61, intermediate), (clockAt 62 62, UnknownType)]
      (updatedMsg 0 (clockAt 50 50) stream_complete (assistantMessage (submitAt 0)))) = [] \<and>
   functionCalls (applyEvents 0
      [(clockAt 60 60, thread_info (Some ''T1'')), (clockAt 61 61, intermediate), (clockAt 62 62, UnknownType)]
      (updatedMsg 0 (clockAt 50 50) stream_complete (assistantMessage (submitAt 0)))) = Some [] \<and>
   responseTime (applyEvents 0
      [(clockAt 60 60, thread_info (Some ''T1'')), (clockAt 61 61, intermediate), (clockAt 62 62, UnknownType)]
      (updatedMsg 0 (clockAt 50 50) stream_complete (assistantMessage (submitAt 0)))) = Some 50"
  using after_terminal_event [of stream_complete "[]" 0
      "[(clockAt 60 60, thread_info (Some ''T1'')), (clockAt 61 61, intermediate), (clockAt 62 62, UnknownType)]"
      "clockAt 50 50" "assistantMessage (submitAt 0)"]
  by (simp add: assistantMessage_def Math_round_def)

section \<open>The line loop\<close>

lemma indexOf_None_iff: "indexOf s c = None \<longleftrightarrow> c \<notin> set s"
  by (induction s) auto

lemma indexOf_Some_less: "indexOf s c = Some i \<Longrightarrow> i < length s"
  by (induction s arbitrary: i) (auto split: if_splits)

lemma indexOf_Some_append: "indexOf s c = Some i \<Longrightarrow> indexOf (s @ t) c = Some i"
  by (induction s arbitrary: i) (auto split: if_splits)

lemma indexOf_append_None:
  "indexOf (s @ t) c = None \<longleftrightarrow> indexOf s c = None \<and> indexOf t c = None"
  by (simp add: indexOf_None_iff)

lemma processLines_no_newline:
  "indexOf buffer CHR 0x0A = None \<Longrightarrow> processLines h buffer st = (buffer, st)"
  by (simp add: processLines.simps [of h buffer])

lemma processLines_append:
  "processLines h (buffer @ chunk) st =
     (case processLines h buffer st of (buffer', st') \<Rightarrow> processLines h (buffer' @ chunk) st')"
proof (induction h buffer st rule: processLines.induct)
  case (1 h buffer st)
  show ?case
  proof (cases "indexOf buffer CHR 0x0A")
    case None
    then show ?thesis
      by (simp add: processLines_no_newline)
  next
    case (Some i)
    then have less: "i < length buffer"
      by (rule indexOf_Some_less)
    from Some have found: "indexOf (buffer @ chunk) CHR 0x0A = Some i"
      by (rule indexOf_Some_append)
    from less have line: "substring (buffer @ chunk) 0 i = substring buffer 0 i"
      by (simp add: substring_def)
    from less have rest: "substringFrom (buffer @ chunk) (Suc i) = substringFrom buffer (Suc i) @ chunk"
      by (simp add: substringFrom_def)
    let ?line = "trim (substring buffer 0 i)"
    let ?rest = "substringFrom buffer (i + 1)"
    let ?dataStr = "trim (substringFrom ?line 5)"
    let ?st = "if ?line = [] \<or> startsWith ?line ''event:'' \<or> \<not> startsWith ?line ''data:''
                  \<or> ?dataStr = [] then st else h ?dataStr st"
    have whole: "processLines h (buffer @ chunk) st = processLines h (?rest @ chunk) ?st"
      by (subst processLines.simps) (simp add: found line rest Let_def)
    have part: "processLines h buffer st = processLines h ?rest ?st"
      by (subst processLines.simps) (simp add: Some Let_def)
    note IH = "1.IH" [OF Some refl refl]
    have "processLines h (?rest @ chunk) ?st =
        (case processLines h ?rest ?st of (buffer', st') \<Rightarrow> processLines h (buffer' @ chunk) st')"
    proof -
      consider (empty) "?line = []"
        | (event) "?line \<noteq> []" "startsWith ?line ''event:''"
        | (other) "?line \<noteq> []" "\<not> startsWith ?line ''event:''" "\<not> startsWith ?line ''data:''"
        | (blank) "?line \<noteq> []" "\<not> startsWith ?line ''event:''" "startsWith ?line ''data:''"
            "?dataStr = []"
        | (data) "?line \<noteq> []" "\<not> startsWith ?line ''event:''" "startsWith ?line ''data:''"
            "?dataStr \<noteq> []"
        by blast
      then show ?thesis
      proof cases
        case empty
        with IH(1) show ?thesis by simp
      next
        case event
        with IH(2) show ?thesis by simp
      next
        case other
        with IH(5) show ?thesis by simp
      next
        case blank
        with IH(3) [OF _ _ _ refl] show ?thesis by simp
      next
        case data
        with IH(4) [OF _ _ _ refl] show ?thesis by simp
      qed
    qed
    then show ?thesis
      by (simp only: whole part)
  qed
qed


lemma foldl_readChunk:
  "indexOf buffer CHR 0x0A = None \<Longrightarrow>
   foldl (readChunk h) (buffer, st) chunks = processLines h (buffer @ concat chunks) st"
proof (induction chunks arbitrary: buffer st rule: rev_induct)
  case Nil
  then show ?case by (simp add: processLines_no_newline)
next
  case (snoc chunk chunks)
  have "foldl (readChunk h) (buffer, st) (chunks @ [chunk])
      = readChunk h (processLines h (buffer @ concat chunks) st) chunk"
    by (simp add: snoc.IH [OF snoc.prems])
  also have "\<dots> = processLines h ((buffer @ concat chunks) @ chunk) st"
    by (simp only: readChunk_def processLines_append [of h "buffer @ concat chunks" chunk st])
  finally show ?case
    by simp
qed

lemma processLines_leaves_no_newline:
  "indexOf (fst (processLines h buffer st)) CHR 0x0A = None"
proof (induction h buffer st rule: processLines.induct)
  case (1 h buffer st)
  show ?case
  proof (cases "indexOf buffer CHR 0x0A")
    case None
    then show ?thesis
      by (simp add: processLines_no_newline)
  next
    case (Some i)
    note IH = "1.IH" [OF Some refl refl]
    show ?thesis
      using IH(1) IH(2) IH(5) IH(3) [OF _ _ _ refl] IH(4) [OF _ _ _ refl] Some
      by (subst processLines.simps) (simp add: Let_def)
  qed
qed

text \<open>
  C6: however the text of the stream is split into chunks, the read loop ends with the same
  buffer and the same state as when the whole text arrives as one chunk, whatever the
  handler does with a payload; so the payload strings are the same, in the same order, and
  the state built from them is the same. A logical line split across two or more chunks is
  the case where the text is that line.
\<close>

theorem chunk_boundary_invariance:
  "foldl (readChunk h) ([], st) chunks = readChunk h ([], st) (concat chunks) \<and>
   readLoop h chunks st = readLoop h [concat chunks] st \<and>
   payloads chunks = payloads [concat chunks]"
  by (simp add: foldl_readChunk readChunk_def readLoop_def payloads_def)

text \<open>
  C6, witness: the line of the specification's example, split inside the key \<open>type\<close>, gives
  the one payload of the unsplit line.
\<close>

theorem chunk_boundary_invariance_witness:
  \<open>payloads [''data: {"typ'', ''e":"content","content":"hi"}'' @ [CHR 0x0A]]
     = [''{"type":"content","content":"hi"}'']\<close>
proof -
  have one: \<open>payloads [concat [''data: {"typ'', ''e":"content","content":"hi"}'' @ [CHR 0x0A]]]
     = [''{"type":"content","content":"hi"}'']\<close>
    by code_simp
  have split: \<open>payloads [''data: {"typ'', ''e":"content","content":"hi"}'' @ [CHR 0x0A]]
     = payloads [concat [''data: {"typ'', ''e":"content","content":"hi"}'' @ [CHR 0x0A]]]\<close>
    using chunk_boundary_invariance [of "\<lambda>dataStr out. out @ [dataStr]" "[]"
      \<open>[''data: {"typ'', ''e":"content","content":"hi"}'' @ [CHR 0x0A]]\<close>]
    by (rule conjunct2 [THEN conjunct2])
  from split one show ?thesis
    by (rule trans)
qed

lemma readLoop_unterminated:
  assumes "concat chunks' = concat chunks @ tail" and "indexOf tail CHR 0x0A = None"
  shows "readLoop h chunks' st = readLoop h chunks st"
proof -
  obtain buffer st' where run: "processLines h (concat chunks) st = (buffer, st')"
    by (cases "processLines h (concat chunks) st")
  have "indexOf buffer CHR 0x0A = None"
    using processLines_leaves_no_newline [of h "concat chunks" st] by (simp add: run)
  with assms(2) have "processLines h (buffer @ tail) st' = (buffer @ tail, st')"
    by (simp add: processLines_no_newline indexOf_append_None)
  then have "processLines h (concat chunks') st = (buffer @ tail, st')"
    by (simp add: assms(1) processLines_append [of h "concat chunks" tail st] run)
  then show ?thesis
    by (simp add: readLoop_def foldl_readChunk run)
qed

text \<open>
  C9: text after the last line break of the stream (a trailing line that is never
  terminated) is dropped when the stream ends. A stream whose text is that of \<open>chunks\<close>
  followed by a tail without a line break yields the payloads of \<open>chunks\<close> and leaves the
  state that \<open>chunks\<close> leaves: the tail applies no event.
\<close>

theorem unterminated_tail_discarded:
  assumes "concat chunks' = concat chunks @ tail" and "indexOf tail CHR 0x0A = None"
  shows "payloads chunks' = payloads chunks \<and>
     readStream parse aid start clock chunks' st = readStream parse aid start clock chunks st"
  using assms by (simp add: payloads_def readStream_def readLoop_unterminated [of chunks' chunks tail])

text \<open>
  C9, witness: a second data line that is never terminated yields no payload and leaves the
  assistant message as the first line left it.
\<close>

theorem unterminated_tail_discarded_witness:
  \<open>payloads [''data: {"type":"content","content":"a"}'' @ [CHR 0x0A],
              ''data: {"type":"content","content":"b"}'']
     = payloads [''data: {"type":"content","content":"a"}'' @ [CHR 0x0A]] \<and>
   readStream parseExample (assistantMessageId (submitAt 1000)) 0 (\<lambda>n. clockAt 1000 0)
       [''data: {"type":"content","content":"a"}'' @ [CHR 0x0A],
        ''data: {"type":"content","content":"b"}'']
       (beginSubmit (submitAt 1000) ((initialState 0)\<lparr> inputValue := ''hi'' \<rparr>))
     = readStream parseExample (assistantMessageId (submitAt 1000)) 0 (\<lambda>n. clockAt 1000 0)
       [''data: {"type":"content","content":"a"}'' @ [CHR 0x0A]]
       (beginSubmit (submitAt 1000) ((initialState 0)\<lparr> inputValue := ''hi'' \<rparr>))\<close>
  using unterminated_tail_discarded [of
      \<open>[''data: {"type":"content","content":"a"}'' @ [CHR 0x0A],
        ''data: {"type":"content","content":"b"}'']\<close>
      \<open>[''data: {"type":"content","content":"a"}'' @ [CHR 0x0A]]\<close>
      \<open>''data: {"type":"content","content":"b"}''\<close>]
  by simp

section \<open>The updater on the message list\<close>

text \<open>
  The threaded \<^verbatim>\<open>map\<close> in closed form: only messages with the assistant message id are
  rewritten, and the thread id is touched only if such a message is in the list.
\<close>

lemma setThreadIdOf_idem: "setThreadIdOf data (setThreadIdOf data tid) = setThreadIdOf data tid"
  by (cases "(data, tid)" rule: setThreadIdOf.cases) simp_all

lemma mapMessages_eq:
  "mapMessages (updateMessage aid start clk data) msgs tid =
     (map (\<lambda>msg. if msg_id msg \<noteq> aid then msg else updatedMsg start clk data msg) msgs,
      if aid \<in> set (map msg_id msgs) then setThreadIdOf data tid else tid)"
proof (induction msgs arbitrary: tid)
  case Nil
  show ?case by simp
next
  case (Cons msg msgs)
  show ?case
    by (simp add: Cons.IH) (simp add: updateMessage_def setThreadIdOf_idem)
qed

lemma applyEvent_eq:
  "applyEvent aid start clk data st =
     st\<lparr> messages := map (\<lambda>msg. if msg_id msg \<noteq> aid then msg else updatedMsg start clk data msg)
                         (messages st),
         threadId := (if aid \<in> set (map msg_id (messages st)) then setThreadIdOf data (threadId st)
                      else threadId st) \<rparr>"
  by (simp add: applyEvent_def mapMessages_eq)



text \<open>A property that every payload handler keeps is kept by the loops.\<close>

lemma processLines_invariant:
  "\<forall>dataStr s. P s \<longrightarrow> P (h dataStr s) \<Longrightarrow> P st \<Longrightarrow> P (snd (processLines h buffer st))"
proof (induction h buffer st rule: processLines.induct)
  case (1 h buffer st)
  show ?case
  proof (cases "indexOf buffer CHR 0x0A")
    case None
    with "1.prems"(2) show ?thesis
      by (simp add: processLines_no_newline)
  next
    case (Some i)
    note IH = "1.IH" [OF Some refl refl]
    from "1.prems" have next_state: "P (h dataStr st)" for dataStr
      by blast
    show ?thesis
      using IH(1) IH(2) IH(5) IH(3) [OF _ _ _ refl] IH(4) [OF _ _ _ refl] Some "1.prems" next_state
      by (subst processLines.simps) (simp add: Let_def)
  qed
qed

lemma readLoop_invariant:
  assumes step: "\<forall>dataStr s. P s \<longrightarrow> P (h dataStr s)" and init: "P st"
  shows "P (readLoop h chunks st)"
proof -
  have "P (snd (foldl (readChunk h) (buffer, st) chunks))" for buffer
  proof (induction chunks rule: rev_induct)
    case Nil
    from init show ?case by simp
  next
    case (snoc chunk chunks)
    obtain b s where run: "foldl (readChunk h) (buffer, st) chunks = (b, s)"
      by (cases "foldl (readChunk h) (buffer, st) chunks")
    with snoc.IH have "P s" by simp
    with step have "P (snd (processLines h (b @ chunk) s))"
      by (rule processLines_invariant)
    then show ?case
      by (simp add: run) (simp add: readChunk_def)
  qed
  then show ?thesis
    by (simp add: readLoop_def)
qed

lemma readStream_invariant:
  assumes step: "\<And>n dataStr s. P s \<Longrightarrow> P (processData parse aid start (clock n) dataStr s)"
    and init: "P st"
  shows "P (readStream parse aid start clock chunks st)"
proof -
  have "\<forall>dataStr ns. P (snd ns) \<longrightarrow> P (snd (onData parse aid start clock dataStr ns))"
    by (auto simp: onData_def intro: step)
  moreover from init have "P (snd (0::nat, st))"
    by simp
  ultimately have "P (snd (readLoop (onData parse aid start clock) chunks (0, st)))"
    by (rule readLoop_invariant [where P = "\<lambda>ns. P (snd ns)"])
  then show ?thesis
    by (simp add: readStream_def)
qed






section \<open>Payloads that do not parse\<close>

text \<open>
  C8: a payload on which \<^verbatim>\<open>JSON.parse\<close> throws is skipped: the state, and with it every
  message, is as before, and nothing is raised (the \<^verbatim>\<open>catch\<close> only logs). With such a
  payload between two \<^verbatim>\<open>content\<close> payloads, the content of the assistant message is its
  content before followed by the two valid fragments, and the other messages are unchanged.
\<close>

theorem malformed_payload_skipped:
  assumes "parse bad = None"
    and "parse p1 = Some (content_event a)"
    and "parse p3 = Some (content_event b)"
  shows "processData parse aid start clk bad st = st \<and>
     messages (processData parse aid start c3 p3
                 (processData parse aid start c2 bad
                    (processData parse aid start c1 p1 st)))
       = map (\<lambda>msg. if msg_id msg = aid then msg\<lparr> content := content msg @ a @ b \<rparr> else msg)
             (messages st)"
  using assms by (simp add: processData_def applyEvent_eq)

text \<open>
  C8, witness: a truncated object between the payloads for the fragments a and b; the
  assistant message ends with the content ab.
\<close>

theorem malformed_payload_skipped_witness:
  \<open>processData parseExample (assistantMessageId (submitAt 1000)) 0 (clockAt 1001 1) ''{"type":'' 
       (beginSubmit (submitAt 1000) ((initialState 0)\<lparr> inputValue := ''hi'' \<rparr>))
     = beginSubmit (submitAt 1000) ((initialState 0)\<lparr> inputValue := ''hi'' \<rparr>) \<and>
   map content (messages (processData parseExample (assistantMessageId (submitAt 1000)) 0 (clockAt 1003 3)
        ''{"type":"content","content":"b"}''
        (processData parseExample (assistantMessageId (submitAt 1000)) 0 (clockAt 1002 2) ''{"type":''
        (processData parseExample (assistantMessageId (submitAt 1000)) 0 (clockAt 1001 1)
        ''{"type":"content","content":"a"}''
        (beginSubmit (submitAt 1000) ((initialState 0)\<lparr> inputValue := ''hi'' \<rparr>))))))
     = [''Hello and welcome to Shadow! How can I help you today?'', ''hi'', ''ab'']\<close>
proof -
  have bad: \<open>parseExample ''{"type":'' = None\<close>
    by (simp add: parseExample_def)
  have p1: \<open>parseExample ''{"type":"content","content":"a"}'' = Some (content_event ''a'')\<close>
    by (simp add: parseExample_def)
  have p3: \<open>parseExample ''{"type":"content","content":"b"}'' = Some (content_event ''b'')\<close>
    by (simp add: parseExample_def)
  have ids: "toString 1000 = ''1000''" "assistantMessageId (submitAt 1000) = ''1001''"
    by code_simp+
  note skipped = malformed_payload_skipped [where parse = parseExample, OF bad p1 p3]
  show ?thesis
    by (subst skipped [THEN conjunct2], subst skipped [THEN conjunct1])
       (simp add: ids beginSubmit_def initialState_def welcomeMessage_def userMessage_def
          assistantMessage_def)
qed

section \<open>Messages other than the assistant message of the exchange\<close>

lemma applyEvent_others:
  assumes "length (messages s) = m \<and> n \<le> m \<and>
      (\<forall>i<n. msg_id (old ! i) \<noteq> aid \<longrightarrow> messages s ! i = old ! i)"
  shows "length (messages (applyEvent aid start clk data s)) = m \<and> n \<le> m \<and>
     (\<forall>i<n. msg_id (old ! i) \<noteq> aid \<longrightarrow> messages (applyEvent aid start clk data s) ! i = old ! i)"
  using assms by (auto simp: applyEvent_eq)

lemma processData_others:
  assumes "length (messages s) = m \<and> n \<le> m \<and>
      (\<forall>i<n. msg_id (old ! i) \<noteq> aid \<longrightarrow> messages s ! i = old ! i)"
  shows "length (messages (processData parse aid start clk dataStr s)) = m \<and> n \<le> m \<and>
     (\<forall>i<n. msg_id (old ! i) \<noteq> aid \<longrightarrow> messages (processData parse aid start clk dataStr s) ! i = old ! i)"
proof (cases "parse dataStr")
  case None
  with assms show ?thesis by (simp add: processData_def)
next
  case (Some data)
  with applyEvent_others [OF assms] show ?thesis by (simp add: processData_def)
qed

lemma catchError_others:
  assumes "length (messages s) = m \<and> n \<le> m \<and>
      (\<forall>i<n. msg_id (old ! i) \<noteq> aid \<longrightarrow> messages s ! i = old ! i)"
  shows "length (messages (catchError aid err s)) = m \<and> n \<le> m \<and>
     (\<forall>i<n. msg_id (old ! i) \<noteq> aid \<longrightarrow> messages (catchError aid err s) ! i = old ! i)"
  using assms by (auto simp: catchError_def)

lemma readStream_others:
  assumes "length (messages s) = m \<and> n \<le> m \<and>
      (\<forall>i<n. msg_id (old ! i) \<noteq> aid \<longrightarrow> messages s ! i = old ! i)"
  shows "length (messages (readStream parse aid start clock chunks s)) = m \<and> n \<le> m \<and>
     (\<forall>i<n. msg_id (old ! i) \<noteq> aid \<longrightarrow> messages (readStream parse aid start clock chunks s) ! i = old ! i)"
  by (rule readStream_invariant [where P = "\<lambda>s. length (messages s) = m \<and> n \<le> m \<and>
        (\<forall>i<n. msg_id (old ! i) \<noteq> aid \<longrightarrow> messages s ! i = old ! i)"])
     (rule processData_others, assumption, rule assms)

lemma tryBlock_others:
  assumes "length (messages s) = m \<and> n \<le> m \<and>
      (\<forall>i<n. msg_id (old ! i) \<noteq> aid \<longrightarrow> messages s ! i = old ! i)"
  shows "length (messages (tryBlock parse aid start clock response s)) = m \<and> n \<le> m \<and>
     (\<forall>i<n. msg_id (old ! i) \<noteq> aid \<longrightarrow> messages (tryBlock parse aid start clock response s) ! i = old ! i)"
proof (cases response)
  case (Rejected err)
  with catchError_others [OF assms] show ?thesis by simp
next
  case (Response status b)
  show ?thesis
  proof (cases "response_ok status")
    case False
    with Response catchError_others [OF assms] show ?thesis by simp
  next
    case True
    show ?thesis
    proof (cases b)
      case NoReader
      with True Response catchError_others [OF assms] show ?thesis by simp
    next
      case (Chunks chunks failure)
      show ?thesis
      proof (cases failure)
        case None
        with True Response Chunks readStream_others [OF assms] show ?thesis by simp
      next
        case (Some err)
        with True Response Chunks catchError_others [OF readStream_others [OF assms]]
        show ?thesis by simp
      qed
    qed
  qed
qed

text \<open>
  C10: a message of the conversation list whose id is not the assistant message id of the
  exchange is left as it is, at its position, by every applied event, by the update of the
  catch block, by the whole \<^verbatim>\<open>try\<close> block with its \<^verbatim>\<open>catch\<close> (any stream of chunks, any
  failure), and so by \<^verbatim>\<open>handleSubmit\<close> as a whole; the updates keep the length of the list.
\<close>

theorem other_messages_unchanged:
  assumes "i < length (messages st)" and "msg_id (messages st ! i) \<noteq> aid"
  shows "length (messages (applyEvent aid start clk data st)) = length (messages st) \<and>
     messages (applyEvent aid start clk data st) ! i = messages st ! i \<and>
     length (messages (catchError aid err st)) = length (messages st) \<and>
     messages (catchError aid err st) ! i = messages st ! i \<and>
     length (messages (tryBlock parse aid start clock response st)) = length (messages st) \<and>
     messages (tryBlock parse aid start clock response st) ! i = messages st ! i \<and>
     (aid = assistantMessageId sc \<longrightarrow>
        messages (handleSubmit parse sc clock response st) ! i = messages st ! i)"
proof -
  have same: "length (messages st) = length (messages st) \<and> length (messages st) \<le> length (messages st) \<and>
      (\<forall>i<length (messages st). msg_id (messages st ! i) \<noteq> aid \<longrightarrow> messages st ! i = messages st ! i)"
    by simp
  have begun: "length (messages (beginSubmit sc st)) = length (messages st) + 2 \<and>
      length (messages st) \<le> length (messages st) + 2 \<and>
      (\<forall>i<length (messages st). msg_id (messages st ! i) \<noteq> aid \<longrightarrow>
         messages (beginSubmit sc st) ! i = messages st ! i)"
    by (simp add: beginSubmit_def nth_append)
  from tryBlock_others [OF begun] assms
  have "messages (tryBlock parse aid start' clock response (beginSubmit sc st)) ! i = messages st ! i"
    for start'
    by blast
  then have whole: "aid = assistantMessageId sc \<longrightarrow>
      messages (handleSubmit parse sc clock response st) ! i = messages st ! i"
    by (auto simp: handleSubmit_def finallyBlock_def)
  from applyEvent_others [OF same] catchError_others [OF same] tryBlock_others [OF same] assms whole
  show ?thesis
    by blast
qed

text \<open>
  C10, witness: the user message of the exchange is unchanged after a stream with one
  \<^verbatim>\<open>content\<close> event that ends with a failing read.
\<close>

theorem other_messages_unchanged_witness:
  \<open>messages (tryBlock parseExample (assistantMessageId (submitAt 1000)) 0 (\<lambda>n. clockAt 1000 0)
       (Response 200 (Chunks [''data: {"type":"content","content":"a"}'' @ [CHR 0x0A]]
          (Some (ErrorObject ''network error''))))
       (beginSubmit (submitAt 1000) ((initialState 0)\<lparr> inputValue := ''hi'' \<rparr>))) ! 1
     = userMessage (submitAt 1000) ''hi''\<close>
proof -
  have len: "1 < length (messages (beginSubmit (submitAt 1000) ((initialState 0)\<lparr> inputValue := ''hi'' \<rparr>)))"
    by (simp add: beginSubmit_def initialState_def)
  have other: "msg_id (messages (beginSubmit (submitAt 1000) ((initialState 0)\<lparr> inputValue := ''hi'' \<rparr>)) ! 1)
      \<noteq> assistantMessageId (submitAt 1000)"
    by code_simp
  have user: "messages (beginSubmit (submitAt 1000) ((initialState 0)\<lparr> inputValue := ''hi'' \<rparr>)) ! 1
      = userMessage (submitAt 1000) ''hi''"
    by (simp add: beginSubmit_def initialState_def)
  note unchanged = other_messages_unchanged [where parse = parseExample and start = 0
      and clock = "\<lambda>n. clockAt 1000 0"
      and response = \<open>Response 200 (Chunks [''data: {"type":"content","content":"a"}'' @ [CHR 0x0A]]
          (Some (ErrorObject ''network error'')))\<close>, OF len other]
  from unchanged [THEN conjunct2, THEN conjunct2, THEN conjunct2, THEN conjunct2, THEN conjunct2,
      THEN conjunct1] user
  show ?thesis
    by (rule trans)
qed

section \<open>Streams of an earlier exchange\<close>





end
